theory Spec2Isabelle
  imports Main "HOL-Library.Multiset"
begin

section \<open>Data model\<close>

text \<open>
  The repository holds two copies of the class \<^verbatim>\<open>DiskScheduler\<close>: the one of
  \<^verbatim>\<open>diskscheduler.py\<close> (command line front end) and the one of \<^verbatim>\<open>ui.py\<close> (web form
  front end). Both are embedded. The names of the first are the source's names; the
  names of the second carry the suffix \<open>_ui\<close>. Cylinders are Python integers, hence
  \<open>int\<close>.
\<close>

record scheduler =
  initial_position :: int
  current_position :: int
  max_cylinder :: int
  requests :: "int list"

record scheduler_ui =
  initial_position_ui :: int
  max_cylinder_ui :: int
  requests_ui :: "int list"

text \<open>
  The only exception either class raises is the \<^verbatim>\<open>ValueError\<close> of \<^verbatim>\<open>add_request\<close>. Its
  message is \<^verbatim>\<open>Request must be between 0 and {max_cylinder}\<close>; the constructor below
  carries the interpolated bound.
\<close>

datatype error = ValueError int

section \<open>Construction and insertion\<close>

text \<open>
  \<^verbatim>\<open>__init__(self, initial_position, max_cylinder=200)\<close> stores its arguments and an
  empty request list. It checks nothing.
\<close>

definition init :: "int \<Rightarrow> int \<Rightarrow> scheduler" where
  "init initial_position' max_cylinder' =
     \<lparr>initial_position = initial_position',
      current_position = initial_position',
      max_cylinder = max_cylinder',
      requests = []\<rparr>"

definition init_ui :: "int \<Rightarrow> int \<Rightarrow> scheduler_ui" where
  "init_ui initial_position' max_cylinder' =
     \<lparr>initial_position_ui = initial_position',
      max_cylinder_ui = max_cylinder',
      requests_ui = []\<rparr>"

text \<open>
  \<^verbatim>\<open>add_request\<close> mutates \<open>self.requests\<close> or raises. The model returns the outcome
  together with the object after the call, so that what an exception leaves behind
  is part of the result.
\<close>

definition add_request :: "scheduler \<Rightarrow> int \<Rightarrow> (error + unit) \<times> scheduler" where
  "add_request self cylinder =
     (if 0 \<le> cylinder \<and> cylinder \<le> max_cylinder self
      then (Inr (), self\<lparr>requests := requests self @ [cylinder]\<rparr>)
      else (Inl (ValueError (max_cylinder self)), self))"

definition add_request_ui :: "scheduler_ui \<Rightarrow> int \<Rightarrow> (error + unit) \<times> scheduler_ui" where
  "add_request_ui self cylinder =
     (if 0 \<le> cylinder \<and> cylinder \<le> max_cylinder_ui self
      then (Inr (), self\<lparr>requests_ui := requests_ui self @ [cylinder]\<rparr>)
      else (Inl (ValueError (max_cylinder_ui self)), self))"

section \<open>Library functions of Python used by the policies\<close>

text \<open>
  \<^verbatim>\<open>min(iterable, key=f)\<close> keeps the first item and replaces it only by an item whose
  key is strictly smaller. \<open>min_key f best rest\<close> is that scan after the first item.
\<close>

fun min_key :: "('a \<Rightarrow> int) \<Rightarrow> 'a \<Rightarrow> 'a list \<Rightarrow> 'a" where
  "min_key key best [] = best"
| "min_key key best (x # xs) =
     (if key x < key best then min_key key x xs else min_key key best xs)"

text \<open>
  \<^verbatim>\<open>sorted(xs)\<close> on integers is \<open>sort\<close>; \<^verbatim>\<open>sorted(xs, reverse=True)\<close> is the descending
  order (equal integers cannot be told apart, so stability does not show).
  \<^verbatim>\<open>list.remove(x)\<close> deletes the first occurrence: \<open>remove1\<close>.
\<close>

definition sorted_reverse :: "int list \<Rightarrow> int list" where
  "sorted_reverse xs = rev (sort xs)"

section \<open>The policies of diskscheduler.py\<close>

text \<open>
  Every \<^verbatim>\<open>for request in ...\<close> loop of this file has the same body: append the request
  to \<open>sequence\<close>, append the distance to \<open>seek_operations\<close>, move \<open>current\<close>.
  The loop state is the triple of these three variables.
\<close>

fun service :: "int list \<Rightarrow> int list \<times> int list \<times> int \<Rightarrow> int list \<times> int list \<times> int" where
  "service [] st = st"
| "service (request # rest) (sequence, seek_operations, current) =
     service rest (sequence @ [request], seek_operations @ [\<bar>request - current\<bar>], request)"

definition fcfs :: "scheduler \<Rightarrow> int list \<times> int" where
  "fcfs self =
     (let (sequence, seek_operations, current) =
            service (requests self) ([], [], initial_position self)
      in (sequence, sum_list seek_operations))"

function sstf_loop :: "int list \<Rightarrow> int list \<times> int list \<times> int \<Rightarrow> int list \<times> int list \<times> int" where
  "sstf_loop [] st = st"
| "sstf_loop (r # rs) (sequence, seek_operations, current) =
     (let closest = min_key (\<lambda>x. \<bar>x - current\<bar>) r rs
      in sstf_loop (remove1 closest (r # rs))
           (sequence @ [closest], seek_operations @ [\<bar>closest - current\<bar>], closest))"
  by pat_completeness auto
termination
proof (relation "measure (\<lambda>(remaining, st). length remaining)")
  show "wf (measure (\<lambda>(remaining, st). length remaining))" by simp
next
  fix r :: int and rs sequence seek_operations current closest
  assume c: "closest = min_key (\<lambda>x. \<bar>x - current\<bar>) r rs"
  have "min_key key best xs \<in> set (best # xs)" for key :: "int \<Rightarrow> int" and best xs
    by (induction xs arbitrary: best) auto
  then have "closest \<in> set (r # rs)" unfolding c .
  then have "length (remove1 closest (r # rs)) < length (r # rs)"
    by (simp only: length_remove1 if_True) simp
  then show "((remove1 closest (r # rs),
               sequence @ [closest], seek_operations @ [\<bar>closest - current\<bar>], closest),
              (r # rs, sequence, seek_operations, current))
             \<in> measure (\<lambda>(remaining, st). length remaining)"
    by simp
qed

definition sstf :: "scheduler \<Rightarrow> int list \<times> int" where
  "sstf self =
     (let (sequence, seek_operations, current) =
            sstf_loop (requests self) ([], [], initial_position self)
      in (sequence, sum_list seek_operations))"

definition scan :: "scheduler \<Rightarrow> string \<Rightarrow> int list \<times> int" where
  "scan self direction =
     (let current = initial_position self;
          remaining = sort (requests self)
      in if direction = ''right'' then
           (let right = filter (\<lambda>r. r \<ge> current) remaining;
                left = sorted_reverse (filter (\<lambda>r. r < current) remaining);
                (sequence, seek_operations, current) = service right ([], [], current);
                (sequence, seek_operations, current) =
                  (if right \<noteq> [] \<and> current \<noteq> max_cylinder self
                   then (sequence @ [max_cylinder self],
                         seek_operations @ [\<bar>max_cylinder self - current\<bar>],
                         max_cylinder self)
                   else (sequence, seek_operations, current));
                (sequence, seek_operations, current) =
                  service left (sequence, seek_operations, current)
            in (sequence, sum_list seek_operations))
         else
           (let left = sorted_reverse (filter (\<lambda>r. r \<le> current) remaining);
                right = sort (filter (\<lambda>r. r > current) remaining);
                (sequence, seek_operations, current) = service left ([], [], current);
                (sequence, seek_operations, current) =
                  (if left \<noteq> [] \<and> current \<noteq> 0
                   then (sequence @ [0], seek_operations @ [\<bar>0 - current\<bar>], 0)
                   else (sequence, seek_operations, current));
                (sequence, seek_operations, current) =
                  service right (sequence, seek_operations, current)
            in (sequence, sum_list seek_operations)))"

definition cscan :: "scheduler \<Rightarrow> int list \<times> int" where
  "cscan self =
     (let current = initial_position self;
          remaining = sort (requests self);
          right = filter (\<lambda>r. r \<ge> current) remaining;
          left = filter (\<lambda>r. r < current) remaining;
          (sequence, seek_operations, current) = service right ([], [], current);
          (sequence, seek_operations, current) =
            (if right \<noteq> []
             then (sequence @ [max_cylinder self],
                   seek_operations @ [\<bar>max_cylinder self - current\<bar>],
                   max_cylinder self)
             else (sequence, seek_operations, current));
          (sequence, seek_operations, current) =
            (sequence @ [0], seek_operations @ [\<bar>0 - current\<bar>], 0);
          (sequence, seek_operations, current) =
            service left (sequence, seek_operations, current)
      in (sequence, sum_list seek_operations))"

section \<open>The policies of ui.py\<close>

text \<open>
  \<^verbatim>\<open>fcfs\<close> copies the request list into \<open>sequence\<close> and loops over it, collecting the
  distances only.
\<close>

fun fcfs_loop_ui :: "int list \<Rightarrow> int list \<times> int \<Rightarrow> int list \<times> int" where
  "fcfs_loop_ui [] st = st"
| "fcfs_loop_ui (request # rest) (seek_operations, current) =
     fcfs_loop_ui rest (seek_operations @ [\<bar>request - current\<bar>], request)"

definition fcfs_ui :: "scheduler_ui \<Rightarrow> int list \<times> int" where
  "fcfs_ui self =
     (let sequence = requests_ui self;
          (seek_operations, current) = fcfs_loop_ui sequence ([], initial_position_ui self)
      in (sequence, sum_list seek_operations))"

function sstf_loop_ui :: "int list \<Rightarrow> int list \<times> int \<times> int \<Rightarrow> int list \<times> int \<times> int" where
  "sstf_loop_ui [] st = st"
| "sstf_loop_ui (r # rs) (sequence, total_seek, current) =
     (let closest = min_key (\<lambda>x. \<bar>x - current\<bar>) r rs;
          seek = \<bar>closest - current\<bar>
      in sstf_loop_ui (remove1 closest (r # rs))
           (sequence @ [closest], total_seek + seek, closest))"
  by pat_completeness auto
termination
proof (relation "measure (\<lambda>(remaining, st). length remaining)")
  show "wf (measure (\<lambda>(remaining, st). length remaining))" by simp
next
  fix r :: int and rs sequence and total_seek current closest seek :: int
  assume c: "closest = min_key (\<lambda>x. \<bar>x - current\<bar>) r rs"
  have "min_key key best xs \<in> set (best # xs)" for key :: "int \<Rightarrow> int" and best xs
    by (induction xs arbitrary: best) auto
  then have "closest \<in> set (r # rs)" unfolding c .
  then have "length (remove1 closest (r # rs)) < length (r # rs)"
    by (simp only: length_remove1 if_True) simp
  then show "((remove1 closest (r # rs),
               sequence @ [closest], total_seek + seek, closest),
              (r # rs, sequence, total_seek, current))
             \<in> measure (\<lambda>(remaining, st). length remaining)"
    by simp
qed

definition sstf_ui :: "scheduler_ui \<Rightarrow> int list \<times> int" where
  "sstf_ui self =
     (if requests_ui self = [] then ([], 0)
      else
        (let (sequence, total_seek, current) =
               sstf_loop_ui (requests_ui self) ([], 0, initial_position_ui self)
         in (sequence, total_seek)))"

text \<open>
  The \<^verbatim>\<open>for req in ...\<close> loops of \<^verbatim>\<open>scan\<close> and \<^verbatim>\<open>cscan\<close> add each distance to the running
  \<open>total_seek\<close>.
\<close>

fun service_ui :: "int list \<Rightarrow> int list \<times> int \<times> int \<Rightarrow> int list \<times> int \<times> int" where
  "service_ui [] st = st"
| "service_ui (req # rest) (sequence, total_seek, current) =
     service_ui rest (sequence @ [req], total_seek + \<bar>req - current\<bar>, req)"

definition scan_ui :: "scheduler_ui \<Rightarrow> string \<Rightarrow> int list \<times> int" where
  "scan_ui self direction =
     (if requests_ui self = [] then ([], 0)
      else
        (let current = initial_position_ui self;
             remaining = sort (requests_ui self)
         in if direction = ''right'' then
              (let right = filter (\<lambda>r. r \<ge> current) remaining;
                   left = sorted_reverse (filter (\<lambda>r. r < current) remaining);
                   (sequence, total_seek, current) = service_ui right ([], 0, current);
                   (sequence, total_seek, current) =
                     (if right \<noteq> [] \<and> current \<noteq> max_cylinder_ui self
                      then (sequence @ [max_cylinder_ui self],
                            total_seek + \<bar>max_cylinder_ui self - current\<bar>,
                            max_cylinder_ui self)
                      else (sequence, total_seek, current));
                   (sequence, total_seek, current) =
                     service_ui left (sequence, total_seek, current)
               in (sequence, total_seek))
            else
              (let left = sorted_reverse (filter (\<lambda>r. r \<le> current) remaining);
                   right = sort (filter (\<lambda>r. r > current) remaining);
                   (sequence, total_seek, current) = service_ui left ([], 0, current);
                   (sequence, total_seek, current) =
                     (if left \<noteq> [] \<and> current \<noteq> 0
                      then (sequence @ [0], total_seek + \<bar>0 - current\<bar>, 0)
                      else (sequence, total_seek, current));
                   (sequence, total_seek, current) =
                     service_ui right (sequence, total_seek, current)
               in (sequence, total_seek))))"

definition cscan_ui :: "scheduler_ui \<Rightarrow> int list \<times> int" where
  "cscan_ui self =
     (if requests_ui self = [] then ([], 0)
      else
        (let current = initial_position_ui self;
             remaining = sort (requests_ui self);
             right = filter (\<lambda>r. r \<ge> current) remaining;
             left = filter (\<lambda>r. r < current) remaining;
             (sequence, total_seek, current) = service_ui right ([], 0, current);
             (sequence, total_seek, current) =
               (if right \<noteq> []
                then (sequence @ [max_cylinder_ui self],
                      total_seek + \<bar>max_cylinder_ui self - current\<bar>,
                      max_cylinder_ui self)
                else (sequence, total_seek, current));
             (sequence, total_seek, current) =
               (sequence @ [0], total_seek + \<bar>0 - current\<bar>, 0);
             (sequence, total_seek, current) =
               service_ui left (sequence, total_seek, current)
         in (sequence, total_seek)))"

section \<open>The replayed cost of a sequence\<close>

text \<open>
  The seek distance of a returned sequence, recomputed from the sequence and the
  initial position alone: position 0 is the initial head position \<open>h\<close>, position
  \<open>i + 1\<close> is \<open>sequence ! i\<close>, and the cost is the sum of the absolute differences of
  consecutive positions.
\<close>

definition replay_cost :: "int \<Rightarrow> int list \<Rightarrow> int" where
  "replay_cost h sequence =
     (\<Sum>i\<leftarrow>[0..<length sequence]. \<bar>sequence ! i - (h # sequence) ! i\<bar>)"

text \<open>The list of the single distances of that walk (used in the proofs).\<close>

fun steps :: "int \<Rightarrow> int list \<Rightarrow> int list" where
  "steps current [] = []"
| "steps current (x # xs) = \<bar>x - current\<bar> # steps x xs"


text \<open>\<open>adjacent a b xs\<close>: somewhere in \<open>xs\<close> a visit to \<open>a\<close> is followed immediately by a visit to \<open>b\<close>.\<close>

fun adjacent :: "int \<Rightarrow> int \<Rightarrow> int list \<Rightarrow> bool" where
  "adjacent a b (x # y # ys) = ((x = a \<and> y = b) \<or> adjacent a b (y # ys))"
| "adjacent a b xs = False"

section \<open>Auxiliary facts\<close>

subsection \<open>The service loops\<close>

lemma steps_append: "steps c (xs @ ys) = steps c xs @ steps (last (c # xs)) ys"
  by (induction xs arbitrary: c) auto

lemma replay_cost_Cons: "replay_cost h (x # xs) = \<bar>x - h\<bar> + replay_cost x xs"
proof -
  have "[0..<length (x # xs)] = 0 # map Suc [0..<length xs]"
    by (simp add: upt_conv_Cons map_Suc_upt del: upt_Suc)
  then show ?thesis
    by (simp add: replay_cost_def comp_def del: upt_Suc)
qed

lemma replay_cost_steps: "replay_cost h xs = sum_list (steps h xs)"
  by (induction xs arbitrary: h) (simp_all add: replay_cost_Cons, simp add: replay_cost_def)

lemma service_eq:
  "service xs (sequence, seek_operations, current) =
     (sequence @ xs, seek_operations @ steps current xs, last (current # xs))"
  by (induction xs arbitrary: sequence seek_operations current) auto

lemma service_ui_eq:
  "service_ui xs (sequence, total_seek, current) =
     (sequence @ xs, total_seek + sum_list (steps current xs), last (current # xs))"
  by (induction xs arbitrary: sequence total_seek current) auto

lemma fcfs_loop_ui_eq:
  "fcfs_loop_ui xs (seek_operations, current) =
     (seek_operations @ steps current xs, last (current # xs))"
  by (induction xs arbitrary: seek_operations current) auto

lemma fcfs_eq: "fcfs self = (requests self, replay_cost (initial_position self) (requests self))"
  by (simp add: fcfs_def service_eq replay_cost_steps)

lemma fcfs_ui_eq: "fcfs_ui self = (requests_ui self, replay_cost (initial_position_ui self) (requests_ui self))"
  by (simp add: fcfs_ui_def Let_def fcfs_loop_ui_eq replay_cost_steps)

lemma replay_cost_append:
  "replay_cost h (xs @ ys) = replay_cost h xs + replay_cost (last (h # xs)) ys"
  by (simp add: replay_cost_steps steps_append)

lemma replay_cost_boundary:
  "xs \<noteq> [] \<Longrightarrow> replay_cost h (xs @ b # ys) =
     replay_cost h xs + \<bar>b - last xs\<bar> + replay_cost b ys"
  by (simp add: replay_cost_append replay_cost_Cons)

subsection \<open>The closest remaining request\<close>

lemma min_key_in: "min_key key best xs \<in> set (best # xs)"
  by (induction xs arbitrary: best) auto










subsection \<open>The loop of SSTF\<close>

lemma sstf_loop_closed:
  "\<exists>picks. sstf_loop remaining st =
      (fst st @ picks, fst (snd st) @ steps (snd (snd st)) picks, last (snd (snd st) # picks)) \<and>
      mset picks = mset remaining"
proof (induction remaining st rule: sstf_loop.induct)
  case (1 st)
  have "sstf_loop [] st = (fst st @ [], fst (snd st) @ steps (snd (snd st)) [], last (snd (snd st) # []))
      \<and> mset ([]::int list) = mset ([]::int list)"
    by simp
  then show ?case by blast
next
  case (2 r rs sequence seek_operations current)
  define closest where "closest = min_key (\<lambda>x. \<bar>x - current\<bar>) r rs"
  from 2 [OF closest_def] obtain picks where
    p: "sstf_loop (remove1 closest (r # rs))
          (sequence @ [closest], seek_operations @ [\<bar>closest - current\<bar>], closest) =
        ((sequence @ [closest]) @ picks,
         (seek_operations @ [\<bar>closest - current\<bar>]) @ steps closest picks,
         last (closest # picks))"
    and l: "mset picks = mset (remove1 closest (r # rs))"
    by auto
  have "closest \<in> set (r # rs)" unfolding closest_def by (rule min_key_in)
  then have "closest \<in># mset (r # rs)" by (simp only: set_mset_mset)
  then have "add_mset closest (mset (r # rs) - {#closest#}) = mset (r # rs)"
    by (rule insert_DiffM)
  with l have l': "mset (closest # picks) = mset (r # rs)"
    by (simp only: mset.simps mset_remove1)
  have "sstf_loop (r # rs) (sequence, seek_operations, current) =
        (sequence @ (closest # picks), seek_operations @ steps current (closest # picks),
         last (current # closest # picks))"
    using p by (simp add: Let_def closest_def)
  with l' show ?case
    by (intro exI [of _ "closest # picks"]) simp
qed

lemma sstf_loop_ui_sstf_loop:
  "sstf_loop_ui remaining (fst st, sum_list (fst (snd st)), snd (snd st)) =
     (case sstf_loop remaining st of (s, ops, c) \<Rightarrow> (s, sum_list ops, c))"
proof (induction remaining st rule: sstf_loop.induct)
  case (1 st)
  then show ?case by (simp split: prod.splits)
next
  case (2 r rs sequence seek_operations current)
  define closest where "closest = min_key (\<lambda>x. \<bar>x - current\<bar>) r rs"
  from 2 [OF closest_def] show ?case
    by (simp add: Let_def closest_def)
qed

lemma sstf_closed:
  "\<exists>picks. sstf self = (picks, replay_cost (initial_position self) picks) \<and>
     mset picks = mset (requests self)"
  using sstf_loop_closed [of "requests self" "([], [], initial_position self)"]
  by (auto simp: sstf_def replay_cost_steps)

lemma sstf_ui_sstf:
  "initial_position_ui u = initial_position s \<Longrightarrow> requests_ui u = requests s \<Longrightarrow>
   sstf_ui u = sstf s"
  using sstf_loop_ui_sstf_loop [of "requests s" "([], [], initial_position s)"]
  by (cases "requests s") (auto simp: sstf_ui_def sstf_def split: prod.splits)


subsection \<open>Closed forms of SCAN and C-SCAN\<close>

lemma sort_eq_Nil: "sort xs = [] \<longleftrightarrow> xs = []"
  by (metis length_sort length_0_conv)

lemma filter_sort_nonempty: "filter P (sort xs) \<noteq> [] \<longleftrightarrow> (\<exists>x\<in>set xs. P x)"
  by (simp add: filter_empty_conv)

lemma adjacent_middle: "adjacent a b (xs @ a # b # ys)"
proof (induction xs)
  case Nil
  show ?case by simp
next
  case (Cons x xs)
  then show ?case by (cases xs) simp_all
qed

lemma scan_right_closed:
  "scan self ''right'' =
     (let h = initial_position self;
          right = filter (\<lambda>r. h \<le> r) (sort (requests self));
          left = sorted_reverse (filter (\<lambda>r. r < h) (sort (requests self)));
          boundary = (if right \<noteq> [] \<and> last right \<noteq> max_cylinder self
                      then [max_cylinder self] else [])
      in (right @ boundary @ left, replay_cost h (right @ boundary @ left)))"
  by (auto simp add: scan_def Let_def service_eq replay_cost_steps steps_append)

lemma scan_left_closed:
  "direction \<noteq> ''right'' \<Longrightarrow> scan self direction =
     (let h = initial_position self;
          left = sorted_reverse (filter (\<lambda>r. r \<le> h) (sort (requests self)));
          right = sort (filter (\<lambda>r. h < r) (sort (requests self)));
          boundary = (if left \<noteq> [] \<and> last left \<noteq> 0 then [0] else [])
      in (left @ boundary @ right, replay_cost h (left @ boundary @ right)))"
  by (auto simp add: scan_def Let_def service_eq replay_cost_steps steps_append)

lemma cscan_closed:
  "cscan self =
     (let h = initial_position self;
          right = filter (\<lambda>r. h \<le> r) (sort (requests self));
          left = filter (\<lambda>r. r < h) (sort (requests self));
          boundary = (if right \<noteq> [] then [max_cylinder self] else [])
      in (right @ boundary @ [0] @ left, replay_cost h (right @ boundary @ [0] @ left)))"
  by (simp add: cscan_def Let_def service_eq replay_cost_steps steps_append)

lemma scan_ui_scan:
  "initial_position_ui u = initial_position s \<Longrightarrow> max_cylinder_ui u = max_cylinder s \<Longrightarrow>
   requests_ui u = requests s \<Longrightarrow> scan_ui u direction = scan s direction"
  by (cases "requests s = []")
     (auto simp add: scan_ui_def scan_def Let_def service_eq service_ui_eq sorted_reverse_def)

lemma cscan_ui_cscan:
  "initial_position_ui u = initial_position s \<Longrightarrow> max_cylinder_ui u = max_cylinder s \<Longrightarrow>
   requests_ui u = requests s \<Longrightarrow> requests s \<noteq> [] \<Longrightarrow> cscan_ui u = cscan s"
  by (simp add: cscan_ui_def cscan_def Let_def service_eq service_ui_eq)

section \<open>The claims\<close>

text \<open>
  The witnesses use the scenario of the specification: head at 50, cylinders 0 to 200,
  requests 82, 170, 43, 140, 24, 16, 190 in this order.
\<close>

abbreviation scenario :: scheduler where
  "scenario \<equiv> \<lparr>initial_position = 50, current_position = 50, max_cylinder = 200,
     requests = [82, 170, 43, 140, 24, 16, 190]\<rparr>"

abbreviation scenario_ui :: scheduler_ui where
  "scenario_ui \<equiv> \<lparr>initial_position_ui = 50, max_cylinder_ui = 200,
     requests_ui = [82, 170, 43, 140, 24, 16, 190]\<rparr>"

text \<open>
  C6. For every input, \<open>fcfs\<close> returns as its sequence the request list in its
  insertion order, neither sorted nor reordered, and as its total seek the sum of the
  absolute differences along that walk, started at the initial head position. This
  holds for the class of either file.
\<close>

theorem fcfs_order_preserving:
  "fcfs self = (requests self, replay_cost (initial_position self) (requests self)) \<and>
   fcfs_ui self' =
     (requests_ui self', replay_cost (initial_position_ui self') (requests_ui self'))"
proof
  show "fcfs self = (requests self, replay_cost (initial_position self) (requests self))"
    by (rule fcfs_eq)
  show "fcfs_ui self' =
     (requests_ui self', replay_cost (initial_position_ui self') (requests_ui self'))"
    by (rule fcfs_ui_eq)
qed

theorem fcfs_order_preserving_witness:
  "fcfs scenario = ([82, 170, 43, 140, 24, 16, 190], 642) \<and>
   fcfs_ui scenario_ui = ([82, 170, 43, 140, 24, 16, 190], 642)"
  using fcfs_order_preserving [where self = scenario and self' = scenario_ui]
  by (simp add: replay_cost_def)

text \<open>
  C5. For every input and each of the four policies, of either class, the returned
  total seek is the cost recomputed from the returned sequence alone, replayed from
  the initial head position: the sum of \<open>\<bar>sequence[i] - sequence[i-1]\<bar>\<close> with the
  initial position in front.
\<close>

theorem total_seek_is_replay_cost:
  "snd (fcfs self) = replay_cost (initial_position self) (fst (fcfs self)) \<and>
   snd (sstf self) = replay_cost (initial_position self) (fst (sstf self)) \<and>
   snd (scan self direction) = replay_cost (initial_position self) (fst (scan self direction)) \<and>
   snd (cscan self) = replay_cost (initial_position self) (fst (cscan self)) \<and>
   snd (fcfs_ui self') = replay_cost (initial_position_ui self') (fst (fcfs_ui self')) \<and>
   snd (sstf_ui self') = replay_cost (initial_position_ui self') (fst (sstf_ui self')) \<and>
   snd (scan_ui self' direction) =
     replay_cost (initial_position_ui self') (fst (scan_ui self' direction)) \<and>
   snd (cscan_ui self') = replay_cost (initial_position_ui self') (fst (cscan_ui self'))"
proof -
  have sstf_cost: "snd (sstf s) = replay_cost (initial_position s) (fst (sstf s))" for s
    using sstf_closed [of s] by auto
  have scan_cost: "snd (scan s d) = replay_cost (initial_position s) (fst (scan s d))" for s d
  proof (cases "d = ''right''")
    case True
    then show ?thesis by (simp add: scan_right_closed Let_def)
  next
    case False
    then show ?thesis by (simp add: scan_left_closed Let_def)
  qed
  have cscan_cost: "snd (cscan s) = replay_cost (initial_position s) (fst (cscan s))" for s
    by (simp add: cscan_closed Let_def)
  define s where "s = \<lparr>initial_position = initial_position_ui self',
    current_position = initial_position_ui self', max_cylinder = max_cylinder_ui self',
    requests = requests_ui self'\<rparr>"
  have s: "initial_position_ui self' = initial_position s" "max_cylinder_ui self' = max_cylinder s"
    "requests_ui self' = requests s"
    by (simp_all add: s_def)
  have cscan_ui_cost:
    "snd (cscan_ui self') = replay_cost (initial_position_ui self') (fst (cscan_ui self'))"
  proof (cases "requests s = []")
    case True
    with s(3) show ?thesis by (simp add: cscan_ui_def replay_cost_def)
  next
    case False
    with s have "cscan_ui self' = cscan s" by (rule cscan_ui_cscan)
    with cscan_cost [of s] s(1) show ?thesis by simp
  qed
  have "snd (fcfs self) = replay_cost (initial_position self) (fst (fcfs self))"
    by (simp add: fcfs_eq)
  moreover note sstf_cost [of self] scan_cost [of self direction] cscan_cost [of self]
  moreover have "snd (fcfs_ui self') = replay_cost (initial_position_ui self') (fst (fcfs_ui self'))"
    by (simp add: fcfs_ui_eq)
  moreover have "snd (sstf_ui self') = replay_cost (initial_position_ui self') (fst (sstf_ui self'))"
    using sstf_cost [of s] sstf_ui_sstf [OF s(1) s(3)] s(1) by simp
  moreover have "snd (scan_ui self' direction) =
     replay_cost (initial_position_ui self') (fst (scan_ui self' direction))"
    using scan_cost [of s direction] scan_ui_scan [OF s, of direction] s(1) by simp
  moreover note cscan_ui_cost
  ultimately show ?thesis by (intro conjI)
qed

theorem total_seek_is_replay_cost_witness:
  "snd (fcfs scenario) = 642 \<and> replay_cost 50 (fst (fcfs scenario)) = 642 \<and>
   snd (sstf scenario) = 208 \<and> replay_cost 50 (fst (sstf scenario)) = 208 \<and>
   snd (scan scenario ''right'') = 334 \<and> replay_cost 50 (fst (scan scenario ''right'')) = 334 \<and>
   snd (cscan scenario) = 393 \<and> replay_cost 50 (fst (cscan scenario)) = 393 \<and>
   snd (cscan_ui scenario_ui) = 393 \<and> replay_cost 50 (fst (cscan_ui scenario_ui)) = 393"
proof -
  have "snd (fcfs scenario) = 642" by (simp add: fcfs_def)
  moreover have "snd (sstf scenario) = 208" by (simp add: sstf_def)
  moreover have "snd (scan scenario ''right'') = 334" by (simp add: scan_def sorted_reverse_def)
  moreover have "snd (cscan scenario) = 393" by (simp add: cscan_def)
  moreover have "snd (cscan_ui scenario_ui) = 393" by (simp add: cscan_ui_def)
  ultimately show ?thesis
    using total_seek_is_replay_cost [where self = scenario and self' = scenario_ui
        and direction = "''right''"]
    by simp
qed

text \<open>
  C9. \<open>add_request\<close> with a cylinder outside \<open>[0, max_cylinder]\<close> raises (the
  \<^verbatim>\<open>ValueError\<close> that the specification calls InvalidRequest) and leaves the
  scheduler, its request list included, as it was: nothing is clamped, nothing is
  inserted. With a cylinder inside the range it appends the cylinder to the request
  list. This holds for the class of either file.
\<close>

theorem add_request_validates:
  "(cylinder < 0 \<or> max_cylinder self < cylinder \<longrightarrow>
      add_request self cylinder = (Inl (ValueError (max_cylinder self)), self)) \<and>
   (0 \<le> cylinder \<and> cylinder \<le> max_cylinder self \<longrightarrow>
      add_request self cylinder = (Inr (), self\<lparr>requests := requests self @ [cylinder]\<rparr>)) \<and>
   (cylinder < 0 \<or> max_cylinder_ui self' < cylinder \<longrightarrow>
      add_request_ui self' cylinder = (Inl (ValueError (max_cylinder_ui self')), self')) \<and>
   (0 \<le> cylinder \<and> cylinder \<le> max_cylinder_ui self' \<longrightarrow>
      add_request_ui self' cylinder =
        (Inr (), self'\<lparr>requests_ui := requests_ui self' @ [cylinder]\<rparr>))"
proof (intro conjI impI)
  assume "cylinder < 0 \<or> max_cylinder self < cylinder"
  then have "\<not> (0 \<le> cylinder \<and> cylinder \<le> max_cylinder self)" by linarith
  then show "add_request self cylinder = (Inl (ValueError (max_cylinder self)), self)"
    by (simp add: add_request_def)
next
  assume "0 \<le> cylinder \<and> cylinder \<le> max_cylinder self"
  then show "add_request self cylinder = (Inr (), self\<lparr>requests := requests self @ [cylinder]\<rparr>)"
    by (simp add: add_request_def)
next
  assume "cylinder < 0 \<or> max_cylinder_ui self' < cylinder"
  then have "\<not> (0 \<le> cylinder \<and> cylinder \<le> max_cylinder_ui self')" by linarith
  then show "add_request_ui self' cylinder = (Inl (ValueError (max_cylinder_ui self')), self')"
    by (simp add: add_request_ui_def)
next
  assume "0 \<le> cylinder \<and> cylinder \<le> max_cylinder_ui self'"
  then show "add_request_ui self' cylinder =
      (Inr (), self'\<lparr>requests_ui := requests_ui self' @ [cylinder]\<rparr>)"
    by (simp add: add_request_ui_def)
qed

theorem add_request_validates_witness:
  "add_request scenario 201 = (Inl (ValueError 200), scenario) \<and>
   add_request scenario (- 1) = (Inl (ValueError 200), scenario) \<and>
   add_request scenario 200 =
     (Inr (), scenario\<lparr>requests := [82, 170, 43, 140, 24, 16, 190, 200]\<rparr>) \<and>
   add_request_ui scenario_ui 201 = (Inl (ValueError 200), scenario_ui) \<and>
   add_request_ui scenario_ui 0 =
     (Inr (), scenario_ui\<lparr>requests_ui := [82, 170, 43, 140, 24, 16, 190, 0]\<rparr>)"
  using add_request_validates [where self = scenario and self' = scenario_ui and cylinder = 201]
    add_request_validates [where self = scenario and self' = scenario_ui and cylinder = "- 1"]
    add_request_validates [where self = scenario and self' = scenario_ui and cylinder = 200]
    add_request_validates [where self = scenario and self' = scenario_ui and cylinder = 0]
  by simp

text \<open>
  C10. On the same initial position, maximum cylinder and request list, the request
  list not empty, the class of \<^verbatim>\<open>ui.py\<close> and the class of \<^verbatim>\<open>diskscheduler.py\<close> return
  the same pair of sequence and total seek for \<open>fcfs\<close>, \<open>sstf\<close>, \<open>scan\<close> in either
  direction and \<open>cscan\<close>.
\<close>

theorem ui_agrees_with_diskscheduler:
  assumes "initial_position_ui u = initial_position s"
    and "max_cylinder_ui u = max_cylinder s"
    and "requests_ui u = requests s"
    and "requests s \<noteq> []"
  shows "fcfs_ui u = fcfs s \<and> sstf_ui u = sstf s \<and>
    scan_ui u ''left'' = scan s ''left'' \<and> scan_ui u ''right'' = scan s ''right'' \<and>
    cscan_ui u = cscan s"
proof (intro conjI)
  show "fcfs_ui u = fcfs s"
    using assms(1,3) by (simp add: fcfs_eq fcfs_ui_eq)
  show "sstf_ui u = sstf s"
    using assms(1,3) by (rule sstf_ui_sstf)
  show "scan_ui u ''left'' = scan s ''left''"
    using assms(1-3) by (rule scan_ui_scan)
  show "scan_ui u ''right'' = scan s ''right''"
    using assms(1-3) by (rule scan_ui_scan)
  show "cscan_ui u = cscan s"
    using assms by (rule cscan_ui_cscan)
qed

theorem ui_agrees_with_diskscheduler_witness:
  "fcfs_ui scenario_ui = fcfs scenario \<and> sstf_ui scenario_ui = sstf scenario \<and>
   scan_ui scenario_ui ''left'' = scan scenario ''left'' \<and>
   scan_ui scenario_ui ''right'' = scan scenario ''right'' \<and>
   cscan_ui scenario_ui = cscan scenario \<and>
   cscan scenario = ([82, 140, 170, 190, 200, 0, 16, 24, 43], 393)"
proof -
  have "cscan scenario = ([82, 140, 170, 190, 200, 0, 16, 24, 43], 393)"
    by (simp add: cscan_def)
  then show ?thesis
    using ui_agrees_with_diskscheduler [of scenario_ui scenario] by simp
qed



text \<open>
  C8. \<open>scan\<close> appends the boundary to the sequence (\<open>max_cylinder\<close> for direction
  right, 0 for direction left) and the distance to it to the cost exactly when some
  request lies on that side of the initial position (at or beyond it) and the head,
  after servicing that side, is not at the boundary already; otherwise the sequence
  is the serviced side followed by the other side, with no boundary point. This
  holds for the class of either file.
\<close>

theorem scan_boundary_visit:
  "scan self ''right'' =
     (let h = initial_position self; M = max_cylinder self;
          right = filter (\<lambda>r. h \<le> r) (sort (requests self));
          left = sorted_reverse (filter (\<lambda>r. r < h) (sort (requests self)))
      in if (\<exists>r\<in>set (requests self). h \<le> r) \<and> last right \<noteq> M
         then (right @ [M] @ left,
               replay_cost h right + \<bar>M - last right\<bar> + replay_cost M left)
         else (right @ left, replay_cost h (right @ left))) \<and>
   scan self ''left'' =
     (let h = initial_position self;
          left = sorted_reverse (filter (\<lambda>r. r \<le> h) (sort (requests self)));
          right = sort (filter (\<lambda>r. h < r) (sort (requests self)))
      in if (\<exists>r\<in>set (requests self). r \<le> h) \<and> last left \<noteq> 0
         then (left @ [0] @ right,
               replay_cost h left + \<bar>0 - last left\<bar> + replay_cost 0 right)
         else (left @ right, replay_cost h (left @ right))) \<and>
   scan_ui self' ''right'' =
     (let h = initial_position_ui self'; M = max_cylinder_ui self';
          right = filter (\<lambda>r. h \<le> r) (sort (requests_ui self'));
          left = sorted_reverse (filter (\<lambda>r. r < h) (sort (requests_ui self')))
      in if (\<exists>r\<in>set (requests_ui self'). h \<le> r) \<and> last right \<noteq> M
         then (right @ [M] @ left,
               replay_cost h right + \<bar>M - last right\<bar> + replay_cost M left)
         else (right @ left, replay_cost h (right @ left))) \<and>
   scan_ui self' ''left'' =
     (let h = initial_position_ui self';
          left = sorted_reverse (filter (\<lambda>r. r \<le> h) (sort (requests_ui self')));
          right = sort (filter (\<lambda>r. h < r) (sort (requests_ui self')))
      in if (\<exists>r\<in>set (requests_ui self'). r \<le> h) \<and> last left \<noteq> 0
         then (left @ [0] @ right,
               replay_cost h left + \<bar>0 - last left\<bar> + replay_cost 0 right)
         else (left @ right, replay_cost h (left @ right)))"
proof -
  have right: "scan s ''right'' =
     (let h = initial_position s; M = max_cylinder s;
          right = filter (\<lambda>r. h \<le> r) (sort (requests s));
          left = sorted_reverse (filter (\<lambda>r. r < h) (sort (requests s)))
      in if (\<exists>r\<in>set (requests s). h \<le> r) \<and> last right \<noteq> M
         then (right @ [M] @ left,
               replay_cost h right + \<bar>M - last right\<bar> + replay_cost M left)
         else (right @ left, replay_cost h (right @ left)))" for s
  proof -
    have side: "filter (\<lambda>r. initial_position s \<le> r) (sort (requests s)) \<noteq> [] \<longleftrightarrow>
        (\<exists>r\<in>set (requests s). initial_position s \<le> r)"
      by (rule filter_sort_nonempty)
    show ?thesis
      unfolding scan_right_closed Let_def side
      by (simp add: replay_cost_boundary side)
  qed
  have left: "scan s ''left'' =
     (let h = initial_position s;
          left = sorted_reverse (filter (\<lambda>r. r \<le> h) (sort (requests s)));
          right = sort (filter (\<lambda>r. h < r) (sort (requests s)))
      in if (\<exists>r\<in>set (requests s). r \<le> h) \<and> last left \<noteq> 0
         then (left @ [0] @ right,
               replay_cost h left + \<bar>0 - last left\<bar> + replay_cost 0 right)
         else (left @ right, replay_cost h (left @ right)))" for s
  proof -
    have side: "sorted_reverse (filter (\<lambda>r. r \<le> initial_position s) (sort (requests s))) \<noteq> [] \<longleftrightarrow>
        (\<exists>r\<in>set (requests s). r \<le> initial_position s)"
      by (simp add: sorted_reverse_def sort_eq_Nil filter_empty_conv)
    have dir: "''left'' \<noteq> ''right''" by simp
    show ?thesis
      unfolding scan_left_closed [OF dir] Let_def side
      by (simp add: replay_cost_boundary side)
  qed
  define s where "s = \<lparr>initial_position = initial_position_ui self',
    current_position = initial_position_ui self', max_cylinder = max_cylinder_ui self',
    requests = requests_ui self'\<rparr>"
  have s: "initial_position_ui self' = initial_position s" "max_cylinder_ui self' = max_cylinder s"
    "requests_ui self' = requests s"
    by (simp_all add: s_def)
  have ui: "scan_ui self' d = scan s d" for d
    using s by (rule scan_ui_scan)
  show ?thesis
    unfolding ui s by (intro conjI right left)
qed

theorem scan_boundary_visit_witness:
  "scan scenario ''right'' = ([82, 140, 170, 190, 200, 43, 24, 16], 334) \<and>
   scan scenario ''left'' = ([43, 24, 16, 0, 82, 140, 170, 190], 240) \<and>
   scan_ui scenario_ui ''right'' = ([82, 140, 170, 190, 200, 43, 24, 16], 334) \<and>
   scan_ui scenario_ui ''left'' = ([43, 24, 16, 0, 82, 140, 170, 190], 240) \<and>
   scan (scenario\<lparr>requests := [200, 10]\<rparr>) ''right'' = ([200, 10], 340) \<and>
   scan (scenario\<lparr>requests := [10]\<rparr>) ''right'' = ([10], 40) \<and>
   scan (scenario\<lparr>requests := [0, 60]\<rparr>) ''left'' = ([0, 60], 110) \<and>
   scan (scenario\<lparr>requests := [60]\<rparr>) ''left'' = ([60], 10)"
  using scan_boundary_visit [where self = scenario and self' = scenario_ui]
    scan_boundary_visit [where self = "scenario\<lparr>requests := [200, 10]\<rparr>"]
    scan_boundary_visit [where self = "scenario\<lparr>requests := [10]\<rparr>"]
    scan_boundary_visit [where self = "scenario\<lparr>requests := [0, 60]\<rparr>"]
    scan_boundary_visit [where self = "scenario\<lparr>requests := [60]\<rparr>"]
  by (simp add: Let_def sorted_reverse_def replay_cost_def)

text \<open>
  C1. With an empty request list \<open>cscan\<close> of \<^verbatim>\<open>diskscheduler.py\<close> does not return the
  empty schedule: it still wraps to cylinder 0 and charges the way there. \<open>cscan\<close> of
  \<^verbatim>\<open>ui.py\<close>, and the other three policies of \<^verbatim>\<open>diskscheduler.py\<close>, return \<open>([], 0)\<close>.
\<close>

theorem cscan_empty_request_list:
  "cscan (init 50 200) = ([0], 50) \<and>
   cscan_ui (init_ui 50 200) = ([], 0) \<and>
   fcfs (init 50 200) = ([], 0) \<and>
   sstf (init 50 200) = ([], 0) \<and>
   scan (init 50 200) ''right'' = ([], 0) \<and>
   scan (init 50 200) ''left'' = ([], 0)"
  by (simp add: init_def init_ui_def cscan_def cscan_ui_def fcfs_def sstf_def scan_def
      sorted_reverse_def)

text \<open>
  C2, as stated, fails: head at 50, cylinders up to 200, the single request 10. No
  request is at or beyond the head, and \<open>cscan\<close> goes to 0 without visiting 200.
\<close>

theorem cscan_boundary_counterexample:
  "cscan (scenario\<lparr>requests := [10]\<rparr>) = ([0, 10], 60) \<and>
   \<not> adjacent 200 0 (fst (cscan (scenario\<lparr>requests := [10]\<rparr>))) \<and>
   cscan_ui (scenario_ui\<lparr>requests_ui := [10]\<rparr>) = ([0, 10], 60) \<and>
   \<not> adjacent 200 0 (fst (cscan_ui (scenario_ui\<lparr>requests_ui := [10]\<rparr>)))"
  by (simp add: cscan_def cscan_ui_def)

text \<open>
  C2, amended. When some request is at or beyond the initial position \<open>h\<close>, the
  \<open>cscan\<close> sequence is the requests \<open>\<ge> h\<close> ascending, then \<open>M\<close>, then 0, then the requests
  \<open>< h\<close> ascending: a visit to \<open>M\<close> followed immediately by a visit to 0, and the way to
  \<open>M\<close> and the way from \<open>M\<close> to 0 are both part of the total. When the request list is
  not empty and every request is below \<open>h\<close>, the sequence is 0 followed by the requests
  ascending, the total charges the way from \<open>h\<close> to 0, and in a valid configuration
  (\<open>0 < M\<close>, \<open>h \<le> M\<close>) the boundary \<open>M\<close> is not visited. This holds for the class of
  either file.
\<close>

theorem cscan_boundary_visits:
  "(let h = initial_position self; M = max_cylinder self;
        right = filter (\<lambda>r. h \<le> r) (sort (requests self));
        left = filter (\<lambda>r. r < h) (sort (requests self))
    in ((\<exists>r\<in>set (requests self). h \<le> r) \<longrightarrow>
          cscan self =
            (right @ [M, 0] @ left,
             replay_cost h right + \<bar>M - last right\<bar> + \<bar>0 - M\<bar> + replay_cost 0 left) \<and>
          adjacent M 0 (fst (cscan self))) \<and>
       (requests self \<noteq> [] \<and> (\<forall>r\<in>set (requests self). r < h) \<longrightarrow>
          cscan self = ([0] @ left, \<bar>0 - h\<bar> + replay_cost 0 left) \<and>
          (0 < M \<and> h \<le> M \<longrightarrow> M \<notin> set (fst (cscan self))))) \<and>
   (let h = initial_position_ui self'; M = max_cylinder_ui self';
        right = filter (\<lambda>r. h \<le> r) (sort (requests_ui self'));
        left = filter (\<lambda>r. r < h) (sort (requests_ui self'))
    in ((\<exists>r\<in>set (requests_ui self'). h \<le> r) \<longrightarrow>
          cscan_ui self' =
            (right @ [M, 0] @ left,
             replay_cost h right + \<bar>M - last right\<bar> + \<bar>0 - M\<bar> + replay_cost 0 left) \<and>
          adjacent M 0 (fst (cscan_ui self'))) \<and>
       (requests_ui self' \<noteq> [] \<and> (\<forall>r\<in>set (requests_ui self'). r < h) \<longrightarrow>
          cscan_ui self' = ([0] @ left, \<bar>0 - h\<bar> + replay_cost 0 left) \<and>
          (0 < M \<and> h \<le> M \<longrightarrow> M \<notin> set (fst (cscan_ui self')))))"
proof -
  have ds: "((\<exists>r\<in>set (requests s). initial_position s \<le> r) \<longrightarrow>
          cscan s =
            (filter (\<lambda>r. initial_position s \<le> r) (sort (requests s)) @ [max_cylinder s, 0] @
               filter (\<lambda>r. r < initial_position s) (sort (requests s)),
             replay_cost (initial_position s)
               (filter (\<lambda>r. initial_position s \<le> r) (sort (requests s))) +
             \<bar>max_cylinder s - last (filter (\<lambda>r. initial_position s \<le> r) (sort (requests s)))\<bar> +
             \<bar>0 - max_cylinder s\<bar> +
             replay_cost 0 (filter (\<lambda>r. r < initial_position s) (sort (requests s)))) \<and>
          adjacent (max_cylinder s) 0 (fst (cscan s))) \<and>
       ((\<forall>r\<in>set (requests s). r < initial_position s) \<longrightarrow>
          cscan s = ([0] @ filter (\<lambda>r. r < initial_position s) (sort (requests s)),
             \<bar>0 - initial_position s\<bar> +
             replay_cost 0 (filter (\<lambda>r. r < initial_position s) (sort (requests s)))) \<and>
          (0 < max_cylinder s \<and> initial_position s \<le> max_cylinder s \<longrightarrow>
             max_cylinder s \<notin> set (fst (cscan s))))" for s
  proof (intro conjI impI)
    assume side: "\<exists>r\<in>set (requests s). initial_position s \<le> r"
    then have ne: "filter (\<lambda>r. initial_position s \<le> r) (sort (requests s)) \<noteq> []"
      by (simp only: filter_sort_nonempty)
    then show eq: "cscan s =
            (filter (\<lambda>r. initial_position s \<le> r) (sort (requests s)) @ [max_cylinder s, 0] @
               filter (\<lambda>r. r < initial_position s) (sort (requests s)),
             replay_cost (initial_position s)
               (filter (\<lambda>r. initial_position s \<le> r) (sort (requests s))) +
             \<bar>max_cylinder s - last (filter (\<lambda>r. initial_position s \<le> r) (sort (requests s)))\<bar> +
             \<bar>0 - max_cylinder s\<bar> +
             replay_cost 0 (filter (\<lambda>r. r < initial_position s) (sort (requests s))))"
      by (simp add: cscan_closed Let_def replay_cost_boundary replay_cost_Cons)
    show "adjacent (max_cylinder s) 0 (fst (cscan s))"
      unfolding eq fst_conv by (simp add: adjacent_middle)
  next
    assume below: "\<forall>r\<in>set (requests s). r < initial_position s"
    then have e: "filter (\<lambda>r. initial_position s \<le> r) (sort (requests s)) = []"
      by (auto simp: filter_empty_conv)
    then show eq: "cscan s = ([0] @ filter (\<lambda>r. r < initial_position s) (sort (requests s)),
             \<bar>0 - initial_position s\<bar> +
             replay_cost 0 (filter (\<lambda>r. r < initial_position s) (sort (requests s))))"
      by (simp add: cscan_closed Let_def replay_cost_Cons)
    assume valid: "0 < max_cylinder s \<and> initial_position s \<le> max_cylinder s"
    show "max_cylinder s \<notin> set (fst (cscan s))"
      unfolding eq fst_conv using valid by auto
  qed
  define s where "s = \<lparr>initial_position = initial_position_ui self',
    current_position = initial_position_ui self', max_cylinder = max_cylinder_ui self',
    requests = requests_ui self'\<rparr>"
  have s: "initial_position_ui self' = initial_position s" "max_cylinder_ui self' = max_cylinder s"
    "requests_ui self' = requests s"
    by (simp_all add: s_def)
  have ui: "cscan_ui self' = cscan s" if "requests s \<noteq> []"
    using s that by (rule cscan_ui_cscan)
  have ne: "requests s \<noteq> []" if "\<exists>r\<in>set (requests s). initial_position s \<le> r"
    using that by auto
  show ?thesis
    unfolding Let_def s using ds [of self] ds [of s] ui ne by auto
qed

theorem cscan_boundary_visits_witness:
  "cscan scenario = ([82, 140, 170, 190, 200, 0, 16, 24, 43], 393) \<and>
   adjacent 200 0 (fst (cscan scenario)) \<and>
   cscan_ui scenario_ui = ([82, 140, 170, 190, 200, 0, 16, 24, 43], 393) \<and>
   adjacent 200 0 (fst (cscan_ui scenario_ui)) \<and>
   cscan (scenario\<lparr>requests := [10]\<rparr>) = ([0, 10], 60) \<and>
   200 \<notin> set (fst (cscan (scenario\<lparr>requests := [10]\<rparr>))) \<and>
   cscan_ui (scenario_ui\<lparr>requests_ui := [10]\<rparr>) = ([0, 10], 60) \<and>
   200 \<notin> set (fst (cscan_ui (scenario_ui\<lparr>requests_ui := [10]\<rparr>)))"
  using cscan_boundary_visits [where self = scenario and self' = scenario_ui]
    cscan_boundary_visits [where self = "scenario\<lparr>requests := [10]\<rparr>"
      and self' = "scenario_ui\<lparr>requests_ui := [10]\<rparr>"]
  by (simp add: Let_def replay_cost_def)

text \<open>
  C3, as stated, fails: \<open>scan\<close> called with the direction \<^verbatim>\<open>'up'\<close> raises nothing and
  returns a schedule, the one of direction left.
\<close>

theorem scan_invalid_direction_counterexample:
  "scan scenario ''up'' = ([43, 24, 16, 0, 82, 140, 170, 190], 240) \<and>
   scan_ui scenario_ui ''up'' = ([43, 24, 16, 0, 82, 140, 170, 190], 240)"
  by (simp add: scan_def scan_ui_def sorted_reverse_def)

text \<open>
  C3, amended. \<open>scan\<close> compares its direction with \<^verbatim>\<open>'right'\<close> only: every other value,
  \<^verbatim>\<open>'left'\<close> or not, takes the branch of direction left and returns that schedule.
  Neither class has an error for the direction. This holds for the class of either
  file.
\<close>

theorem scan_other_direction_is_left:
  assumes "direction \<noteq> ''right''"
  shows "scan self direction = scan self ''left'' \<and>
    scan_ui self' direction = scan_ui self' ''left''"
proof
  have left: "''left'' \<noteq> ''right''" by simp
  show "scan self direction = scan self ''left''"
    by (simp only: scan_left_closed [OF assms] scan_left_closed [OF left])
  define s where "s = \<lparr>initial_position = initial_position_ui self',
    current_position = initial_position_ui self', max_cylinder = max_cylinder_ui self',
    requests = requests_ui self'\<rparr>"
  have ui: "scan_ui self' d = scan s d" for d
    by (rule scan_ui_scan) (simp_all add: s_def)
  show "scan_ui self' direction = scan_ui self' ''left''"
    by (simp only: ui scan_left_closed [OF assms] scan_left_closed [OF left])
qed

theorem scan_other_direction_is_left_witness:
  "scan scenario ''up'' = scan scenario ''left'' \<and>
   scan_ui scenario_ui ''up'' = scan_ui scenario_ui ''left'' \<and>
   scan scenario ''left'' = ([43, 24, 16, 0, 82, 140, 170, 190], 240)"
proof -
  have dir: "''up'' \<noteq> ''right''" by simp
  have "scan scenario ''left'' = ([43, 24, 16, 0, 82, 140, 170, 190], 240)"
    by (simp add: scan_def sorted_reverse_def)
  with scan_other_direction_is_left [OF dir, of scenario scenario_ui] show ?thesis
    by (simp only: simp_thms)
qed




end
